theory Spec2Isabelle
  imports
    Complex_Main
    "HOL-Library.Sublist"
    "HOL-Library.AList"
    "HOL-Library.Char_ord"
    "HOL-Library.List_Lexorder"
    "HOL-Library.Option_ord"
    "HOL-Library.Product_Lexorder"
begin

section \<open>The archive ingestion loader (import\_zip.py)\<close>

subsection \<open>Values, frames and the file system\<close>

text \<open>
  A DBF field value as \<open>dbfread\<close> hands it over: \<open>None\<close>, an integer, a float, a string,
  a logical or a date. The tag written by \<open>df['year'] = year\<close> is an integer.
\<close>

datatype val = Null | IntV int | FloatV real | TextV string | BoolV bool | DateV int int int

text \<open>
  A pandas DataFrame, as far as the loader uses it: the column labels in order and the
  rows. The frame built from the records of a DBF file has one column per field name, and
  every row holds one value per column (\<open>wf_frame\<close>).
\<close>

record dataframe =
  columns :: "string list"
  rows :: "val list list"

definition wf_frame :: "dataframe \<Rightarrow> bool" where
  "wf_frame df \<longleftrightarrow> list_all (\<lambda>r. length r = length (columns df)) (rows df)"

text \<open>The exceptions the loader can meet.\<close>

datatype error =
    ReadFailure string          \<comment> \<open>raised by \<open>DBF(...)\<close> or while iterating the records\<close>
  | DuplicateColumn string      \<comment> \<open>the store refuses a repeated column name\<close>
  | NoSuchColumn string         \<comment> \<open>append to a table that lacks a column of the frame\<close>
  | StoreUnavailable            \<comment> \<open>the database file cannot be opened\<close>
  | ListFailure string          \<comment> \<open>raised by \<open>os.listdir\<close>\<close>

text \<open>
  What the loader sees of one year's \<open>working\<close> directory: it does not exist
  (\<open>os.path.exists\<close> is false), it exists but \<open>os.listdir\<close> raises, or it lists entries.
  An entry is a file name with the outcome of lines 65--66 on it: the exception raised
  while opening or reading the file, or the frame of its records.
\<close>

type_synonym year = int
type_synonym entry = "string \<times> (error + dataframe)"

datatype directory = Missing | Unlistable error | Listing "entry list"

subsection \<open>String helpers of the Python library\<close>

text \<open>
  \<open>str.lower\<close> on the letters of a DBF field name or of a file name. DBF field names are
  ASCII; on ASCII, \<open>str.lower\<close> maps \<open>A\<close>..\<open>Z\<close> to \<open>a\<close>..\<open>z\<close> and leaves every other
  character alone.
\<close>

definition lower_char :: "char \<Rightarrow> char" where
  "lower_char c =
     (let n = (of_char c :: nat) in if 65 \<le> n \<and> n \<le> 90 then char_of (n + 32) else c)"

definition lower :: "string \<Rightarrow> string" where
  "lower s = map lower_char s"

text \<open>\<open>s.rfind(c)\<close>: the last index of \<open>c\<close> in \<open>s\<close>, \<open>None\<close> for Python's \<open>-1\<close>.\<close>

fun rfind :: "char \<Rightarrow> string \<Rightarrow> nat option" where
  "rfind c [] = None"
| "rfind c (x # xs) =
     (case rfind c xs of
        Some i \<Rightarrow> Some (Suc i)
      | None \<Rightarrow> if x = c then Some 0 else None)"

text \<open>
  \<open>os.path.splitext\<close> on a directory entry (a name without path separators): split at the
  last dot, unless only dots come before it.
\<close>

definition splitext :: "string \<Rightarrow> string \<times> string" where
  "splitext p =
     (case rfind (CHR ''.'') p of
        None \<Rightarrow> (p, [])
      | Some d \<Rightarrow>
          if list_ex (\<lambda>c. c \<noteq> CHR ''.'') (take d p) then (take d p, drop d p) else (p, []))"

text \<open>Line 45: \<open>f.lower().endswith('.dbf')\<close>; line 59: the table name.\<close>

definition is_dbf :: "string \<Rightarrow> bool" where
  "is_dbf f \<longleftrightarrow> suffix ''.dbf'' (lower f)"

definition table_name :: "string \<Rightarrow> string" where
  "table_name dbf_filename = lower (fst (splitext dbf_filename))"

subsection \<open>The two normalisations (lines 73 and 76)\<close>

text \<open>
  \<open>df.empty\<close>: true when either axis has length zero.
\<close>

definition empty_frame :: "dataframe \<Rightarrow> bool" where
  "empty_frame df \<longleftrightarrow> rows df = [] \<or> columns df = []"

text \<open>
  \<open>df['year'] = year\<close>: when a column labelled \<open>year\<close> exists, every column with that
  label is overwritten in place; otherwise a new column is added at the end.
\<close>

definition set_year :: "year \<Rightarrow> dataframe \<Rightarrow> dataframe" where
  "set_year y df =
     (if ''year'' \<in> set (columns df)
      then df\<lparr>rows := map (\<lambda>r. map2 (\<lambda>c v. if c = ''year'' then IntV y else v) (columns df) r)
                         (rows df)\<rparr>
      else df\<lparr>columns := columns df @ [''year''], rows := map (\<lambda>r. r @ [IntV y]) (rows df)\<rparr>)"

text \<open>\<open>df.columns = df.columns.str.lower()\<close>\<close>

definition lower_columns :: "dataframe \<Rightarrow> dataframe" where
  "lower_columns df = df\<lparr>columns := map lower (columns df)\<rparr>"

text \<open>The frame handed to \<open>to_sql\<close>: line 73, then line 76.\<close>

definition written_frame :: "year \<Rightarrow> dataframe \<Rightarrow> dataframe" where
  "written_frame y df = lower_columns (set_year y df)"

subsection \<open>The destination store\<close>

text \<open>
  The SQLite database behind the engine. \<open>create_engine\<close> (line 21) opens nothing: the
  database file is opened by the first statement that needs a connection, so a store that
  cannot be opened shows only when \<open>to_sql\<close> runs. The store is therefore either
  unavailable or a list of named tables in creation order; a table has the shape of a
  frame (column names, rows).
\<close>

datatype store = Unavailable | Db "(string \<times> dataframe) list"

text \<open>
  One row of a frame brought to the column order of the table: a column the frame lacks
  is \<open>NULL\<close>.
\<close>

definition align_row :: "string list \<Rightarrow> string list \<Rightarrow> val list \<Rightarrow> val list" where
  "align_row tcols fcols r =
     map (\<lambda>c. case map_of (zip fcols r) c of Some v \<Rightarrow> v | None \<Rightarrow> Null) tcols"

text \<open>
  Modelled from the spec: \<open>DataFrame.to_sql(name, con, if_exists='append', index=False)\<close>
  is library code. The spec has it append the rows to the destination table, creating the
  table if it does not yet exist, and has mismatched columns on append fail as a per-file
  error; a write that raises leaves the store as it was. On a frame with a repeated column
  label the spec is silent: an SQLite table cannot have two columns of one name, so the
  model takes the write to raise.
\<close>

definition to_sql :: "store \<Rightarrow> string \<Rightarrow> dataframe \<Rightarrow> error + store" where
  "to_sql st name df =
     (case st of
        Unavailable \<Rightarrow> Inl StoreUnavailable
      | Db tabs \<Rightarrow>
          (case List.find (\<lambda>c. count_list (columns df) c > 1) (columns df) of
             Some c \<Rightarrow> Inl (DuplicateColumn c)
           | None \<Rightarrow>
               (case map_of tabs name of
                  None \<Rightarrow>
                    Inr (Db (tabs @ [(name, \<lparr>columns = columns df, rows = rows df\<rparr>)]))
                | Some t \<Rightarrow>
                    (case List.find (\<lambda>c. c \<notin> set (columns t)) (columns df) of
                       Some c \<Rightarrow> Inl (NoSuchColumn c)
                     | None \<Rightarrow>
                         Inr (Db (AList.update name
                                (t\<lparr>rows := rows t @ map (align_row (columns t) (columns df)) (rows df)\<rparr>)
                                tabs))))))"

definition lookup_table :: "store \<Rightarrow> string \<Rightarrow> dataframe option" where
  "lookup_table st name = (case st of Unavailable \<Rightarrow> None | Db tabs \<Rightarrow> map_of tabs name)"

definition row_count :: "store \<Rightarrow> string \<Rightarrow> nat" where
  "row_count st name = (case lookup_table st name of None \<Rightarrow> 0 | Some t \<Rightarrow> length (rows t))"

subsection \<open>The processing loop\<close>

text \<open>What the loader prints, without the elapsed times.\<close>

datatype event =
    Starting
  | ProcessingYear year
  | DirectoryNotFound year
  | NoDbfFiles year
  | Found nat
  | Reading string
  | EmptyFile string
  | Loading string
  | Failed string year error
  | FinishedYear year
  | Complete

text \<open>
  The body of the \<open>try\<close> (lines 56--89) on one file: what it printed, and either the
  exception that left it or the store after it.
\<close>

definition try_body :: "year \<Rightarrow> store \<Rightarrow> entry \<Rightarrow> event list \<times> (error + store)" where
  "try_body y st f =
     (case snd f of
        Inl e \<Rightarrow> ([Reading (fst f)], Inl e)
      | Inr df \<Rightarrow>
          if empty_frame df then ([Reading (fst f), EmptyFile (fst f)], Inr st)
          else ([Reading (fst f), Loading (table_name (fst f))],
                to_sql st (table_name (fst f)) (written_frame y df)))"

text \<open>The \<open>try\<close> with its handler (lines 55--92): \<open>except Exception\<close> prints and goes on.\<close>

definition process_file :: "year \<Rightarrow> store \<Rightarrow> entry \<Rightarrow> store \<times> event list" where
  "process_file y st f =
     (case try_body y st f of
        (out, Inl e) \<Rightarrow> (st, out @ [Failed (fst f) y e])
      | (out, Inr st') \<Rightarrow> (st', out))"

text \<open>The loop over the files of one year (line 54).\<close>

fun process_files :: "year \<Rightarrow> store \<Rightarrow> entry list \<Rightarrow> store \<times> event list" where
  "process_files y st [] = (st, [])"
| "process_files y st (f # fs) =
     (case process_file y st f of
        (st', out) \<Rightarrow> (case process_files y st' fs of (st'', out') \<Rightarrow> (st'', out @ out')))"

text \<open>
  One iteration of the loop over the years (lines 33--95). The third component is the
  exception that leaves the iteration uncaught, if any: \<open>os.listdir\<close> is outside the \<open>try\<close>.
\<close>

definition process_year ::
  "(year \<Rightarrow> directory) \<Rightarrow> store \<Rightarrow> year \<Rightarrow> store \<times> event list \<times> error option" where
  "process_year fs st y =
     (case fs y of
        Missing \<Rightarrow> (st, [ProcessingYear y, DirectoryNotFound y], None)
      | Unlistable e \<Rightarrow> (st, [ProcessingYear y], Some e)
      | Listing entries \<Rightarrow>
          (let dbf_files = filter (\<lambda>f. is_dbf (fst f)) entries in
           if dbf_files = [] then (st, [ProcessingYear y, NoDbfFiles y], None)
           else (case process_files y st dbf_files of
                   (st', out) \<Rightarrow>
                     (st', [ProcessingYear y, Found (length dbf_files)] @ out @ [FinishedYear y],
                      None))))"

text \<open>The loop over the years (line 32); an uncaught exception ends it.\<close>

fun process_years ::
  "(year \<Rightarrow> directory) \<Rightarrow> store \<Rightarrow> year list \<Rightarrow> store \<times> event list \<times> error option" where
  "process_years fs st [] = (st, [], None)"
| "process_years fs st (y # ys) =
     (case process_year fs st y of
        (st', out, Some e) \<Rightarrow> (st', out, Some e)
      | (st', out, None) \<Rightarrow>
          (case process_years fs st' ys of (st'', out', r) \<Rightarrow> (st'', out @ out', r)))"

text \<open>The whole script: the banner, the loop, and the summary when the loop ends.\<close>

definition import_zip ::
  "(year \<Rightarrow> directory) \<Rightarrow> store \<Rightarrow> year list \<Rightarrow> store \<times> event list \<times> error option" where
  "import_zip fs st years =
     (case process_years fs st years of
        (st', out, Some e) \<Rightarrow> (st', Starting # out, Some e)
      | (st', out, None) \<Rightarrow> (st', Starting # out @ [Complete], None))"

text \<open>Projections of a run.\<close>

definition final_store :: "store \<times> event list \<times> error option \<Rightarrow> store" where
  "final_store r = fst r"

definition printed :: "store \<times> event list \<times> error option \<Rightarrow> event list" where
  "printed r = fst (snd r)"

definition uncaught :: "store \<times> event list \<times> error option \<Rightarrow> error option" where
  "uncaught r = snd (snd r)"

section \<open>The return-on-equity query (analyse\_roe.py)\<close>

text \<open>
  A row of the common table expression \<open>LaggedEquity\<close>, the input of the final
  \<open>SELECT\<close> of \<open>roe_query\<close>. \<open>net_income\<close> and \<open>total_equity\<close> come out of
  \<open>CAST(... AS REAL)\<close>: a real number or \<open>NULL\<close> (\<open>None\<close>). Rounding of the
  floating-point arithmetic is not modelled.
\<close>

record lagged_row =
  respondent :: val
  respondent_name :: "string option"
  year :: "int option"
  net_income :: "real option"
  total_equity :: "real option"
  prev_year_equity :: "real option"

record roe_row = lagged_row +
  return_on_equity_pct :: "real option"

text \<open>SQL comparison and arithmetic: \<open>NULL\<close> in, \<open>NULL\<close> out; SQLite divides by zero to \<open>NULL\<close>.\<close>

definition sql_gt :: "real option \<Rightarrow> real option \<Rightarrow> bool option" where
  "sql_gt a b = (case (a, b) of (Some x, Some y) \<Rightarrow> Some (x > y) | _ \<Rightarrow> None)"

definition sql_div :: "real option \<Rightarrow> real option \<Rightarrow> real option" where
  "sql_div a b =
     (case (a, b) of (Some x, Some y) \<Rightarrow> if y = 0 then None else Some (x / y) | _ \<Rightarrow> None)"

definition sql_mul :: "real option \<Rightarrow> real option \<Rightarrow> real option" where
  "sql_mul a b = (case (a, b) of (Some x, Some y) \<Rightarrow> Some (x * y) | _ \<Rightarrow> None)"

text \<open>
  The select list (lines 73--74): the six columns of the row and
  \<open>CASE WHEN total_equity > 0 THEN (net_income / total_equity) * 100 ELSE NULL END\<close>.
  A \<open>WHEN\<close> whose condition is \<open>NULL\<close> is not taken.
\<close>

definition roe_select :: "lagged_row \<Rightarrow> roe_row" where
  "roe_select r =
     lagged_row.extend r
       (roe_row.fields
          (if sql_gt (total_equity r) (Some 0) = Some True
           then sql_mul (sql_div (net_income r) (total_equity r)) (Some 100)
           else None))"

text \<open>
  Lines 72--77: select, \<open>WHERE return_on_equity_pct IS NOT NULL\<close>,
  \<open>ORDER BY respondent_name, year\<close> (ascending, \<open>NULL\<close> first, text compared bytewise).
\<close>

definition roe_query :: "lagged_row list \<Rightarrow> roe_row list" where
  "roe_query lagged_equity =
     sort_key (\<lambda>r. (respondent_name r, year r))
       (filter (\<lambda>r. return_on_equity_pct r \<noteq> None) (map roe_select lagged_equity))"

section \<open>Notions used in the statements\<close>

text \<open>
  When \<open>to_sql\<close> goes through: the store is available, the frame has no repeated column
  label, and the table, if it exists, has every column of the frame.
\<close>

definition accepts :: "store \<Rightarrow> string \<Rightarrow> dataframe \<Rightarrow> bool" where
  "accepts st name df \<longleftrightarrow>
     st \<noteq> Unavailable \<and> distinct (columns df) \<and>
     (case lookup_table st name of None \<Rightarrow> True | Some t \<Rightarrow> set (columns df) \<subseteq> set (columns t))"

text \<open>The table after a successful write: created from the frame, or the old table with the
  frame's rows behind its own.\<close>

definition appended :: "dataframe option \<Rightarrow> dataframe \<Rightarrow> dataframe" where
  "appended old df =
     (case old of
        None \<Rightarrow> \<lparr>columns = columns df, rows = rows df\<rparr>
      | Some t \<Rightarrow> t\<lparr>rows := rows t @ map (align_row (columns t) (columns df)) (rows df)\<rparr>)"

text \<open>
  \<open>keeps st st'\<close>: every table of \<open>st\<close> is still in \<open>st'\<close>, with the same columns and with
  its rows as the first rows. \<open>same_schema\<close> asks for the columns only.
\<close>

definition keeps :: "store \<Rightarrow> store \<Rightarrow> bool" where
  "keeps st st' \<longleftrightarrow>
     (\<forall>n t. lookup_table st n = Some t \<longrightarrow>
        (\<exists>t'. lookup_table st' n = Some t' \<and> columns t' = columns t \<and> prefix (rows t) (rows t')))"

definition same_schema :: "store \<Rightarrow> store \<Rightarrow> bool" where
  "same_schema a b \<longleftrightarrow>
     (\<forall>n t. lookup_table a n = Some t \<longrightarrow>
        (\<exists>t'. lookup_table b n = Some t' \<and> columns t' = columns t))"

text \<open>
  Every column name of every table is lowercase. This holds of the empty database and of
  every store the loader makes from it.
\<close>

definition lowercase_store :: "store \<Rightarrow> bool" where
  "lowercase_store st \<longleftrightarrow>
     (\<forall>n t. lookup_table st n = Some t \<longrightarrow> (\<forall>c\<in>set (columns t). lower c = c))"

section \<open>Example inputs\<close>

definition frame_2019 :: dataframe where
  "frame_2019 =
     \<lparr>columns = [''RESPONDENT'', ''AMOUNT''],
      rows = [[IntV 1, IntV 10], [IntV 2, IntV 20], [IntV 3, IntV 30]]\<rparr>"

definition frame_2020 :: dataframe where
  "frame_2020 =
     \<lparr>columns = [''RESPONDENT'', ''AMOUNT''],
      rows = [[IntV 1, IntV 11], [IntV 2, IntV 21]]\<rparr>"

definition frame_no_records :: dataframe where
  "frame_no_records = \<lparr>columns = [], rows = []\<rparr>"

text \<open>A file with a field named \<open>YEAR\<close>.\<close>

definition frame_upper_year :: dataframe where
  "frame_upper_year =
     \<lparr>columns = [''RESPONDENT'', ''YEAR''], rows = [[IntV 1, IntV 1999], [IntV 2, IntV 1998]]\<rparr>"

text \<open>A file with a field named \<open>year\<close>.\<close>

definition frame_lower_year :: dataframe where
  "frame_lower_year =
     \<lparr>columns = [''RESPONDENT'', ''year''], rows = [[IntV 1, IntV 1999], [IntV 2, IntV 1998]]\<rparr>"

text \<open>A file system where the directory of 2019 exists but cannot be listed.\<close>

definition unlistable_fs :: "year \<Rightarrow> directory" where
  "unlistable_fs y =
     (if y = 2019 then Unlistable (ListFailure ''permission denied'') else Missing)"

text \<open>The store after the files of 2019 below have been ingested into an empty database.\<close>

definition table_2019 :: dataframe where
  "table_2019 =
     \<lparr>columns = [''respondent'', ''amount'', ''year''],
      rows = [[IntV 1, IntV 10, IntV 2019], [IntV 2, IntV 20, IntV 2019],
              [IntV 3, IntV 30, IntV 2019]]\<rparr>"

definition store_2019 :: store where
  "store_2019 = Db [(''f1_1'', table_2019)]"

definition example_fs :: "year \<Rightarrow> directory" where
  "example_fs y =
     (if y = 2019 then
        Listing [(''F1_1.DBF'', Inr frame_2019),
                 (''F1_2.DBF'', Inl (ReadFailure ''bad header'')),
                 (''f1_3.dbf'', Inr frame_no_records),
                 (''readme.txt'', Inl (ReadFailure ''not a table''))]
      else if y = 2020 then Listing [(''f1_1.dbf'', Inr frame_2020)]
      else Missing)"



definition lagged_profit :: lagged_row where
  "lagged_profit =
     \<lparr>respondent = IntV 1, respondent_name = Some ''B'', year = Some 2019,
      net_income = Some 50, total_equity = Some 200, prev_year_equity = Some 0\<rparr>"

definition lagged_no_equity :: lagged_row where
  "lagged_no_equity =
     \<lparr>respondent = IntV 2, respondent_name = Some ''A'', year = Some 2019,
      net_income = Some 50, total_equity = Some 0, prev_year_equity = Some 0\<rparr>"

section \<open>Properties of the return-on-equity query\<close>

lemma roe_select_sel:
  "total_equity (roe_select r) = total_equity r"
  "net_income (roe_select r) = net_income r"
  by (simp_all add: roe_select_def lagged_row.defs roe_row.defs)

lemma roe_select_pct:
  "return_on_equity_pct (roe_select r) =
     (if sql_gt (total_equity r) (Some 0) = Some True
      then sql_mul (sql_div (net_income r) (total_equity r)) (Some 100)
      else None)"
  by (simp add: roe_select_def lagged_row.defs roe_row.defs)

text \<open>
  C10. Every row the query returns has a positive \<open>total_equity\<close> and carries
  \<open>(net_income / total_equity) * 100\<close> as its \<open>return_on_equity_pct\<close>; a row of
  \<open>LaggedEquity\<close> whose \<open>total_equity\<close> is \<open>NULL\<close>, zero or negative gets \<open>NULL\<close> there and
  is not in the result.
\<close>

theorem roe_rows_guarded:
  "(\<forall>r \<in> set (roe_query lagged_equity).
      \<exists>n e. net_income r = Some n \<and> total_equity r = Some e \<and> e > 0 \<and>
            return_on_equity_pct r = Some (n / e * 100)) \<and>
   (\<forall>l \<in> set lagged_equity.
      \<not> (\<exists>e. total_equity l = Some e \<and> e > 0) \<longrightarrow>
        return_on_equity_pct (roe_select l) = None \<and>
        roe_select l \<notin> set (roe_query lagged_equity))"
  by (auto simp: roe_query_def roe_select_sel roe_select_pct sql_gt_def sql_div_def sql_mul_def
           split: option.splits if_splits)

theorem roe_rows_guarded_witness:
  "roe_select lagged_profit \<in> set (roe_query [lagged_profit, lagged_no_equity]) \<and>
   (\<exists>n e. net_income (roe_select lagged_profit) = Some n \<and>
          total_equity (roe_select lagged_profit) = Some e \<and> e > 0 \<and>
          return_on_equity_pct (roe_select lagged_profit) = Some (n / e * 100)) \<and>
   lagged_no_equity \<in> set [lagged_profit, lagged_no_equity] \<and>
   \<not> (\<exists>e. total_equity lagged_no_equity = Some e \<and> e > 0) \<and>
   return_on_equity_pct (roe_select lagged_no_equity) = None \<and>
   roe_select lagged_no_equity \<notin> set (roe_query [lagged_profit, lagged_no_equity])"
proof -
  have a: "roe_select lagged_profit \<in> set (roe_query [lagged_profit, lagged_no_equity])"
    by (simp add: roe_query_def roe_select_pct lagged_profit_def lagged_no_equity_def
          sql_gt_def sql_div_def sql_mul_def)
  have b: "lagged_no_equity \<in> set [lagged_profit, lagged_no_equity]"
    by simp
  have c: "\<not> (\<exists>e. total_equity lagged_no_equity = Some e \<and> e > 0)"
    by (simp add: lagged_no_equity_def)
  from roe_rows_guarded [of "[lagged_profit, lagged_no_equity]"] a b c show ?thesis
    by blast
qed

section \<open>Properties of the loader\<close>

subsection \<open>Strings, the write step, and what a run keeps\<close>

lemma lower_char_idem: "lower_char (lower_char c) = lower_char c"
  by (simp add: lower_char_def Let_def)

lemma lower_idem: "lower (lower s) = lower s"
  by (simp add: lower_def lower_char_idem)

lemma lower_year: "lower ''year'' = ''year''"
  by code_simp

lemma lower_respondent: "lower ''RESPONDENT'' = ''respondent''"
  by code_simp

lemma lower_upper_year: "lower ''YEAR'' = ''year''"
  by code_simp

lemma lower_amount: "lower ''AMOUNT'' = ''amount''"
  by code_simp

lemma process_files_append:
  "process_files y st (xs @ ys) =
     (case process_files y st xs of
        (st1, out1) \<Rightarrow> (case process_files y st1 ys of (st2, out2) \<Rightarrow> (st2, out1 @ out2)))"
  by (induction xs arbitrary: st) (auto split: prod.splits)

lemma process_years_append:
  "process_years fs st (xs @ ys) =
     (case process_years fs st xs of
        (st1, out1, Some e) \<Rightarrow> (st1, out1, Some e)
      | (st1, out1, None) \<Rightarrow>
          (case process_years fs st1 ys of (st2, out2, r) \<Rightarrow> (st2, out1 @ out2, r)))"
  by (induction xs arbitrary: st) (auto split: prod.splits option.splits)

lemma count_list_distinct: "(\<forall>c\<in>set xs. count_list xs c \<le> 1) \<longleftrightarrow> distinct xs"
proof (induction xs)
  case Nil
  show ?case by simp
next
  case (Cons x xs)
  show ?case
  proof (cases "x \<in> set xs")
    case True
    then have "count_list xs x \<noteq> 0" by (simp add: count_list_0_iff)
    with True show ?thesis by auto
  next
    case False
    with Cons show ?thesis by auto
  qed
qed

lemma find_duplicate_None: "List.find (\<lambda>c. Suc 0 < count_list xs c) xs = None \<longleftrightarrow> distinct xs"
  using count_list_distinct [of xs] by (auto simp: find_None_iff not_less)

lemma find_missing_None: "List.find (\<lambda>c. c \<notin> set cs) xs = None \<longleftrightarrow> set xs \<subseteq> set cs"
  by (auto simp: find_None_iff)

lemma to_sql_Db:
  "to_sql (Db tabs) name df =
     (if \<not> distinct (columns df)
      then Inl (DuplicateColumn (the (List.find (\<lambda>c. count_list (columns df) c > 1) (columns df))))
      else case map_of tabs name of
             None \<Rightarrow> Inr (Db (tabs @ [(name, appended None df)]))
           | Some t \<Rightarrow>
               if set (columns df) \<subseteq> set (columns t)
               then Inr (Db (AList.update name (appended (Some t) df) tabs))
               else Inl (NoSuchColumn (the (List.find (\<lambda>c. c \<notin> set (columns t)) (columns df)))))"
proof (cases "List.find (\<lambda>c. count_list (columns df) c > 1) (columns df)")
  case None
  then have d: "distinct (columns df)" by (simp add: find_duplicate_None)
  show ?thesis
  proof (cases "map_of tabs name")
    case n: None
    with None d show ?thesis by (simp add: to_sql_def appended_def)
  next
    case (Some t)
    show ?thesis
    proof (cases "List.find (\<lambda>c. c \<notin> set (columns t)) (columns df)")
      case n: None
      then have "set (columns df) \<subseteq> set (columns t)" by (simp add: find_missing_None)
      with None d Some n show ?thesis by (simp add: to_sql_def appended_def)
    next
      case s: (Some c)
      then have "\<not> set (columns df) \<subseteq> set (columns t)"
        using find_missing_None [of "columns t" "columns df"] by simp
      with None d Some s show ?thesis by (simp add: to_sql_def)
    qed
  qed
next
  case (Some c)
  then have "\<not> distinct (columns df)"
    using find_duplicate_None [of "columns df"] by simp
  with Some show ?thesis by (simp add: to_sql_def)
qed

lemma to_sql_Inl: "(\<exists>e. to_sql st name df = Inl e) \<longleftrightarrow> \<not> accepts st name df"
proof (cases st)
  case Unavailable
  then show ?thesis by (simp add: to_sql_def accepts_def)
next
  case (Db tabs)
  then show ?thesis
    by (auto simp: to_sql_Db accepts_def lookup_table_def split: option.splits)
qed

lemma to_sql_Inr:
  assumes "to_sql st name df = Inr st'"
  shows "accepts st name df"
    and "st' \<noteq> Unavailable"
    and "lookup_table st' k = (if k = name then Some (appended (lookup_table st name) df)
                               else lookup_table st k)"
proof -
  from assms obtain tabs where st: "st = Db tabs"
    by (cases st) (auto simp: to_sql_def)
  from assms show "accepts st name df"
    using to_sql_Inl [of st name df] by auto
  from assms st show "st' \<noteq> Unavailable"
    by (auto simp: to_sql_Db split: if_splits option.splits)
  from assms st show "lookup_table st' k = (if k = name then Some (appended (lookup_table st name) df)
                               else lookup_table st k)"
    by (auto simp: to_sql_Db lookup_table_def update_conv' map_add_def
          split: if_splits option.splits)
qed


lemma keeps_refl: "keeps st st"
  by (simp add: keeps_def)

lemma keeps_trans:
  assumes "keeps a b" and "keeps b c"
  shows "keeps a c"
  unfolding keeps_def
proof (intro allI impI)
  fix n t
  assume "lookup_table a n = Some t"
  with assms(1) obtain t' where
    t': "lookup_table b n = Some t'" "columns t' = columns t" "prefix (rows t) (rows t')"
    unfolding keeps_def by blast
  from assms(2) t'(1) obtain t'' where
    t'': "lookup_table c n = Some t''" "columns t'' = columns t'" "prefix (rows t') (rows t'')"
    unfolding keeps_def by blast
  from t'(3) t''(3) have "prefix (rows t) (rows t'')" by (rule prefix_order.order_trans)
  with t'' t'(2) show "\<exists>t'. lookup_table c n = Some t' \<and> columns t' = columns t \<and> prefix (rows t) (rows t')"
    by simp
qed

lemma keeps_same_schema: "keeps a b \<Longrightarrow> same_schema a b"
  unfolding keeps_def same_schema_def by blast

lemma same_schema_trans:
  assumes "same_schema a b" and "same_schema b c"
  shows "same_schema a c"
  unfolding same_schema_def
proof (intro allI impI)
  fix n t
  assume "lookup_table a n = Some t"
  with assms(1) obtain t' where t': "lookup_table b n = Some t'" "columns t' = columns t"
    unfolding same_schema_def by blast
  from assms(2) t'(1) obtain t'' where "lookup_table c n = Some t''" "columns t'' = columns t'"
    unfolding same_schema_def by blast
  with t'(2) show "\<exists>t'. lookup_table c n = Some t' \<and> columns t' = columns t"
    by simp
qed

lemma appended_columns:
  "columns (appended old df) = (case old of None \<Rightarrow> columns df | Some t \<Rightarrow> columns t)"
  by (simp add: appended_def split: option.splits)

lemma appended_rows_length:
  "length (rows (appended old df)) =
     (case old of None \<Rightarrow> 0 | Some t \<Rightarrow> length (rows t)) + length (rows df)"
  by (simp add: appended_def split: option.splits)

lemma to_sql_keeps: "to_sql st name df = Inr st' \<Longrightarrow> keeps st st'"
  by (auto simp: keeps_def to_sql_Inr(3) appended_def)

lemma process_file_unfold:
  "process_file y st f =
     (case snd f of
        Inl e \<Rightarrow> (st, [Reading (fst f), Failed (fst f) y e])
      | Inr df \<Rightarrow>
          if empty_frame df then (st, [Reading (fst f), EmptyFile (fst f)])
          else (case to_sql st (table_name (fst f)) (written_frame y df) of
                  Inl e \<Rightarrow> (st, [Reading (fst f), Loading (table_name (fst f)), Failed (fst f) y e])
                | Inr st' \<Rightarrow> (st', [Reading (fst f), Loading (table_name (fst f))])))"
  by (simp add: process_file_def try_body_def split: sum.splits)

lemma process_file_keeps: "keeps st (fst (process_file y st f))"
  by (auto simp: process_file_unfold keeps_refl to_sql_keeps split: sum.splits)

lemma process_file_available:
  "fst (process_file y st f) = Unavailable \<longleftrightarrow> st = Unavailable"
  by (auto simp: process_file_unfold to_sql_Inr(2) to_sql_def split: sum.splits)

lemma process_files_keeps: "keeps st (fst (process_files y st fs))"
proof (induction fs arbitrary: st)
  case Nil
  show ?case by (simp add: keeps_refl)
next
  case (Cons f fs)
  have "keeps st (fst (process_file y st f))" by (rule process_file_keeps)
  moreover have "keeps (fst (process_file y st f)) (fst (process_files y (fst (process_file y st f)) fs))"
    by (rule Cons.IH)
  ultimately show ?case
    by (auto split: prod.splits dest: keeps_trans)
qed

lemma process_files_available:
  "fst (process_files y st fs) = Unavailable \<longleftrightarrow> st = Unavailable"
proof (induction fs arbitrary: st)
  case Nil
  show ?case by simp
next
  case (Cons f fs)
  from Cons.IH [of "fst (process_file y st f)"] process_file_available [of y st f]
  show ?case by (auto split: prod.splits)
qed

lemma process_year_store:
  "fst (process_year fs st y) =
     (case fs y of
        Listing entries \<Rightarrow> fst (process_files y st (filter (\<lambda>f. is_dbf (fst f)) entries))
      | _ \<Rightarrow> st)"
  by (simp add: process_year_def Let_def split: directory.splits prod.splits)

lemma process_year_keeps: "keeps st (fst (process_year fs st y))"
  by (simp add: process_year_store keeps_refl process_files_keeps split: directory.splits)

lemma process_year_available:
  "fst (process_year fs st y) = Unavailable \<longleftrightarrow> st = Unavailable"
  by (simp add: process_year_store process_files_available split: directory.splits)

lemma process_years_keeps: "keeps st (fst (process_years fs st ys))"
proof (induction ys arbitrary: st)
  case Nil
  show ?case by (simp add: keeps_refl)
next
  case (Cons y ys)
  have "keeps st (fst (process_year fs st y))" by (rule process_year_keeps)
  moreover have "keeps (fst (process_year fs st y)) (fst (process_years fs (fst (process_year fs st y)) ys))"
    by (rule Cons.IH)
  ultimately show ?case
    by (auto split: prod.splits option.splits dest: keeps_trans)
qed

lemma process_years_available:
  "fst (process_years fs st ys) = Unavailable \<longleftrightarrow> st = Unavailable"
proof (induction ys arbitrary: st)
  case Nil
  show ?case by simp
next
  case (Cons y ys)
  from Cons.IH [of "fst (process_year fs st y)"] process_year_available [of fs st y]
  show ?case by (auto split: prod.splits option.splits)
qed

lemma import_zip_store: "final_store (import_zip fs st ys) = fst (process_years fs st ys)"
  by (simp add: import_zip_def final_store_def split: prod.splits option.splits)


subsection \<open>Failures of one file\<close>

text \<open>
  C1. Whatever exception leaves the \<open>try\<close> body on one file of a year, the year ends
  without an uncaught exception; the failure is printed with the name of that file and
  the year; the files after it are processed from the store as it was before the failing
  file, so the year ingests what its other files give; and the loop goes on to the years
  that follow.
\<close>

theorem file_exception_caught:
  assumes "fs y = Listing entries"
    and "filter (\<lambda>f. is_dbf (fst f)) entries = before @ f # after"
    and "process_files y st before = (st1, out1)"
    and "try_body y st1 f = (out, Inl e)"
    and "process_files y st1 after = (st2, out2)"
  shows "process_year fs st y =
           (st2,
            [ProcessingYear y, Found (length before + 1 + length after)] @ out1 @ out @
              [Failed (fst f) y e] @ out2 @ [FinishedYear y],
            None) \<and>
         st2 = fst (process_files y st (before @ after)) \<and>
         process_years fs st (y # ys) =
           (case process_years fs st2 ys of
              (st3, out3, r) \<Rightarrow>
                (st3,
                 [ProcessingYear y, Found (length before + 1 + length after)] @ out1 @ out @
                   [Failed (fst f) y e] @ out2 @ [FinishedYear y] @ out3,
                 r))"
proof -
  from assms(4) have pf: "process_file y st1 f = (st1, out @ [Failed (fst f) y e])"
    by (simp add: process_file_def)
  with assms(3,5) have all: "process_files y st (before @ f # after) =
      (st2, out1 @ out @ [Failed (fst f) y e] @ out2)"
    by (simp add: process_files_append)
  from assms(3,5) have rest: "st2 = fst (process_files y st (before @ after))"
    by (simp add: process_files_append)
  from assms(1,2) all have py: "process_year fs st y =
           (st2,
            [ProcessingYear y, Found (length before + 1 + length after)] @ out1 @ out @
              [Failed (fst f) y e] @ out2 @ [FinishedYear y],
            None)"
    by (simp add: process_year_def Let_def)
  from py rest show ?thesis
    by (simp split: prod.splits)
qed

theorem file_exception_caught_witness:
  "process_year example_fs (Db []) 2019 =
     (Db [(''f1_1'',
           \<lparr>columns = [''respondent'', ''amount'', ''year''],
            rows = [[IntV 1, IntV 10, IntV 2019], [IntV 2, IntV 20, IntV 2019],
                    [IntV 3, IntV 30, IntV 2019]]\<rparr>)],
      [ProcessingYear 2019, Found 3,
       Reading ''F1_1.DBF'', Loading ''f1_1'',
       Reading ''F1_2.DBF'', Failed ''F1_2.DBF'' 2019 (ReadFailure ''bad header''),
       Reading ''f1_3.dbf'', EmptyFile ''f1_3.dbf'',
       FinishedYear 2019],
      None)"
proof -
  have h1: "example_fs 2019 =
      Listing [(''F1_1.DBF'', Inr frame_2019),
               (''F1_2.DBF'', Inl (ReadFailure ''bad header'')),
               (''f1_3.dbf'', Inr frame_no_records),
               (''readme.txt'', Inl (ReadFailure ''not a table''))]"
    by (simp add: example_fs_def)
  have h2: "filter (\<lambda>f. is_dbf (fst f))
       [(''F1_1.DBF'', Inr frame_2019),
        (''F1_2.DBF'', Inl (ReadFailure ''bad header'')),
        (''f1_3.dbf'', Inr frame_no_records),
        (''readme.txt'', Inl (ReadFailure ''not a table''))] =
      [(''F1_1.DBF'', Inr frame_2019)] @ (''F1_2.DBF'', Inl (ReadFailure ''bad header'')) #
      [(''f1_3.dbf'', Inr frame_no_records)]"
    by code_simp
  have h3: "process_files 2019 (Db []) [(''F1_1.DBF'', Inr frame_2019)] =
      (Db [(''f1_1'',
           \<lparr>columns = [''respondent'', ''amount'', ''year''],
            rows = [[IntV 1, IntV 10, IntV 2019], [IntV 2, IntV 20, IntV 2019],
                    [IntV 3, IntV 30, IntV 2019]]\<rparr>)],
       [Reading ''F1_1.DBF'', Loading ''f1_1''])"
    by code_simp
  have h4: "try_body 2019 (Db [(''f1_1'',
           \<lparr>columns = [''respondent'', ''amount'', ''year''],
            rows = [[IntV 1, IntV 10, IntV 2019], [IntV 2, IntV 20, IntV 2019],
                    [IntV 3, IntV 30, IntV 2019]]\<rparr>)])
        (''F1_2.DBF'', Inl (ReadFailure ''bad header'')) =
      ([Reading ''F1_2.DBF''], Inl (ReadFailure ''bad header''))"
    by (simp add: try_body_def)
  have h5: "process_files 2019 (Db [(''f1_1'',
           \<lparr>columns = [''respondent'', ''amount'', ''year''],
            rows = [[IntV 1, IntV 10, IntV 2019], [IntV 2, IntV 20, IntV 2019],
                    [IntV 3, IntV 30, IntV 2019]]\<rparr>)])
        [(''f1_3.dbf'', Inr frame_no_records)] =
      (Db [(''f1_1'',
           \<lparr>columns = [''respondent'', ''amount'', ''year''],
            rows = [[IntV 1, IntV 10, IntV 2019], [IntV 2, IntV 20, IntV 2019],
                    [IntV 3, IntV 30, IntV 2019]]\<rparr>)],
       [Reading ''f1_3.dbf'', EmptyFile ''f1_3.dbf''])"
    by code_simp
  from file_exception_caught [where fs = example_fs and y = 2019 and ys = "[]", OF h1 h2 h3 h4 h5]
  show ?thesis
    by simp
qed


subsection \<open>Files without records\<close>

text \<open>
  C7. A file that yields no records prints the notice that it is empty and leaves the store
  as it is: the write step is not reached. The files before and after it in the same year
  are processed as if it were not there.
\<close>

theorem empty_file_skipped:
  assumes "snd f = Inr df" and "rows df = []"
  shows "process_file y st f = (st, [Reading (fst f), EmptyFile (fst f)]) \<and>
         process_files y st (before @ f # after) =
           (case process_files y st before of
              (st1, out1) \<Rightarrow>
                (case process_files y st1 after of
                   (st2, out2) \<Rightarrow>
                     (st2, out1 @ [Reading (fst f), EmptyFile (fst f)] @ out2))) \<and>
         fst (process_files y st (before @ f # after)) = fst (process_files y st (before @ after))"
proof -
  from assms have pf: "\<And>s. process_file y s f = (s, [Reading (fst f), EmptyFile (fst f)])"
    by (simp add: process_file_unfold empty_frame_def)
  then show ?thesis
    by (simp add: process_files_append split: prod.splits)
qed

theorem empty_file_skipped_witness:
  "process_file 2019 (Db []) (''f1_3.dbf'', Inr frame_no_records) =
     (Db [], [Reading ''f1_3.dbf'', EmptyFile ''f1_3.dbf'']) \<and>
   fst (process_files 2019 (Db [])
          ([(''F1_1.DBF'', Inr frame_2019)] @ (''f1_3.dbf'', Inr frame_no_records) # [])) =
   fst (process_files 2019 (Db []) ([(''F1_1.DBF'', Inr frame_2019)] @ []))"
proof -
  have h1: "snd (''f1_3.dbf'', Inr frame_no_records) = Inr frame_no_records" by simp
  have h2: "rows frame_no_records = []" by (simp add: frame_no_records_def)
  from empty_file_skipped [OF h1 h2, of 2019 "Db []" "[(''F1_1.DBF'', Inr frame_2019)]" "[]"]
  show ?thesis by (simp split: prod.splits)
qed

subsection \<open>Years without a directory\<close>

text \<open>
  C6. A year whose directory does not exist prints a warning, changes nothing in the store
  and raises nothing; a run with that year in its list ends with the same store, hence the
  same row counts, and the same uncaught exception (if any) as the run without it.
\<close>

theorem missing_year_skipped:
  assumes "fs y = Missing"
  shows "process_year fs st y = (st, [ProcessingYear y, DirectoryNotFound y], None) \<and>
         final_store (import_zip fs st (ys1 @ y # ys2)) = final_store (import_zip fs st (ys1 @ ys2)) \<and>
         uncaught (import_zip fs st (ys1 @ y # ys2)) = uncaught (import_zip fs st (ys1 @ ys2)) \<and>
         (\<forall>n. row_count (final_store (import_zip fs st (ys1 @ y # ys2))) n =
              row_count (final_store (import_zip fs st (ys1 @ ys2))) n)"
proof -
  from assms have py: "\<And>s. process_year fs s y = (s, [ProcessingYear y, DirectoryNotFound y], None)"
    by (simp add: process_year_def)
  have st: "fst (process_years fs st (ys1 @ y # ys2)) = fst (process_years fs st (ys1 @ ys2))"
    by (simp add: process_years_append py split: prod.splits option.splits)
  have un: "snd (snd (process_years fs st (ys1 @ y # ys2))) = snd (snd (process_years fs st (ys1 @ ys2)))"
    by (simp add: process_years_append py split: prod.splits option.splits)
  have u: "\<And>ys. uncaught (import_zip fs st ys) = snd (snd (process_years fs st ys))"
    by (simp add: import_zip_def uncaught_def split: prod.splits option.splits)
  from py st un show ?thesis
    by (simp add: import_zip_store u)
qed

theorem missing_year_skipped_witness:
  "process_year example_fs (Db []) 2018 =
     (Db [], [ProcessingYear 2018, DirectoryNotFound 2018], None) \<and>
   final_store (import_zip example_fs (Db []) ([] @ 2018 # [2019, 2020])) =
   final_store (import_zip example_fs (Db []) ([] @ [2019, 2020])) \<and>
   uncaught (import_zip example_fs (Db []) ([] @ 2018 # [2019, 2020])) = None \<and>
   row_count (final_store (import_zip example_fs (Db []) ([] @ 2018 # [2019, 2020]))) ''f1_1'' = 5"
proof -
  have h: "example_fs 2018 = Missing" by (simp add: example_fs_def)
  have u: "uncaught (import_zip example_fs (Db []) ([] @ [2019, 2020])) = None" by code_simp
  have r: "row_count (final_store (import_zip example_fs (Db []) ([] @ [2019, 2020]))) ''f1_1'' = 5"
    by code_simp
  from missing_year_skipped [where fs = example_fs and y = 2018, OF h, of "Db []" "[]" "[2019, 2020]"] u r
  show ?thesis by simp
qed

subsection \<open>Tables are created or appended to\<close>

text \<open>
  C8. Processing one file either leaves a table as it is or, for the file's own table,
  creates it from the written frame or puts the frame's rows behind the rows it had. So
  every table present before a file, and before a whole run, is present after it with the
  same columns and with its old rows as its first rows: nothing is dropped or truncated.
\<close>

theorem tables_never_shrink:
  "(\<forall>n. lookup_table (fst (process_file y st f)) n = lookup_table st n \<or>
        (\<exists>df. snd f = Inr df \<and> n = table_name (fst f) \<and>
              lookup_table (fst (process_file y st f)) n =
                Some (appended (lookup_table st n) (written_frame y df)))) \<and>
   keeps st (fst (process_file y st f)) \<and>
   keeps st (final_store (import_zip fs st years))"
proof -
  have "lookup_table (fst (process_file y st f)) n = lookup_table st n \<or>
        (\<exists>df. snd f = Inr df \<and> n = table_name (fst f) \<and>
              lookup_table (fst (process_file y st f)) n =
                Some (appended (lookup_table st n) (written_frame y df)))" for n
    by (auto simp: process_file_unfold to_sql_Inr(3) split: sum.splits)
  then show ?thesis
    by (simp add: process_file_keeps import_zip_store process_years_keeps)
qed


theorem tables_never_shrink_witness:
  "lookup_table store_2019 ''f1_1'' = Some table_2019 \<and>
   (\<exists>t'. lookup_table (final_store (import_zip example_fs store_2019 [2020])) ''f1_1'' = Some t' \<and>
         columns t' = columns table_2019 \<and> prefix (rows table_2019) (rows t')) \<and>
   row_count store_2019 ''f1_1'' = 3 \<and>
   row_count (final_store (import_zip example_fs store_2019 [2020])) ''f1_1'' = 5"
proof -
  have h: "lookup_table store_2019 ''f1_1'' = Some table_2019"
    by (simp add: lookup_table_def store_2019_def)
  have r: "row_count store_2019 ''f1_1'' = 3"
    by (simp add: row_count_def h table_2019_def)
  have r': "row_count (final_store (import_zip example_fs store_2019 [2020])) ''f1_1'' = 5"
    by code_simp
  from tables_never_shrink [of 2020 store_2019 "(''f1_1.dbf'', Inr frame_2020)" example_fs "[2020]"]
  have "keeps store_2019 (final_store (import_zip example_fs store_2019 [2020]))"
    by blast
  with h r r' show ?thesis
    unfolding keeps_def by blast
qed

subsection \<open>The order of tagging and lowercasing\<close>

lemma map2_tag_lower:
  assumes "\<forall>c\<in>set cs. lower c = ''year'' \<longrightarrow> c = ''year''"
  shows "map2 (\<lambda>c v. if c = ''year'' then IntV y else v) (map lower cs) r =
         map2 (\<lambda>c v. if c = ''year'' then IntV y else v) cs r"
proof -
  have eq: "(lower c = ''year'') = (c = ''year'')" if "c \<in> set cs" for c
    using that assms lower_year by auto
  have "map2 (\<lambda>c v. if c = ''year'' then IntV y else v) (map lower cs) r =
        map (\<lambda>(c, v). if lower c = ''year'' then IntV y else v) (zip cs r)"
    by (simp add: zip_map1 case_prod_unfold)
  also have "\<dots> = map (\<lambda>(c, v). if c = ''year'' then IntV y else v) (zip cs r)"
  proof (rule map_cong [OF refl])
    fix p assume "p \<in> set (zip cs r)"
    then have "fst p \<in> set cs"
      using set_zip_leftD [of "fst p" "snd p" cs r] by simp
    from eq [OF this] show "(case p of (c, v) \<Rightarrow> if lower c = ''year'' then IntV y else v) =
        (case p of (c, v) \<Rightarrow> if c = ''year'' then IntV y else v)"
      by (cases p) simp
  qed
  finally show ?thesis .
qed


text \<open>
  C5, as stated, fails: on a file with a field \<open>YEAR\<close>, tagging and then lowercasing
  (the loader's order) gives two columns named \<open>year\<close>, lowercasing and then tagging gives
  one, overwritten by the tag.
\<close>

theorem tag_lower_order_counterexample:
  "set_year 2020 (lower_columns frame_upper_year) =
     \<lparr>columns = [''respondent'', ''year''], rows = [[IntV 1, IntV 2020], [IntV 2, IntV 2020]]\<rparr> \<and>
   lower_columns (set_year 2020 frame_upper_year) =
     \<lparr>columns = [''respondent'', ''year'', ''year''],
      rows = [[IntV 1, IntV 1999, IntV 2020], [IntV 2, IntV 1998, IntV 2020]]\<rparr> \<and>
   set_year 2020 (lower_columns frame_upper_year) \<noteq> lower_columns (set_year 2020 frame_upper_year)"
  by (simp add: set_year_def lower_columns_def frame_upper_year_def lower_respondent
        lower_upper_year lower_year)

text \<open>
  C5, amended. When no field name other than \<open>year\<close> itself lowercases to \<open>year\<close>, tagging
  and lowercasing give the same frame in either order.
\<close>

theorem tag_lower_commute:
  assumes "\<forall>c\<in>set (columns df). lower c = ''year'' \<longrightarrow> c = ''year''"
  shows "set_year y (lower_columns df) = lower_columns (set_year y df)"
proof (cases "''year'' \<in> set (columns df)")
  case True
  then have "lower ''year'' \<in> lower ` set (columns df)"
    by (rule imageI)
  then have "''year'' \<in> set (map lower (columns df))"
    by (simp add: lower_year)
  with True show ?thesis
    by (simp add: set_year_def lower_columns_def map2_tag_lower [OF assms])
next
  case False
  with assms have "''year'' \<notin> set (map lower (columns df))"
    by auto
  with False show ?thesis
    by (simp add: set_year_def lower_columns_def lower_year)
qed

theorem tag_lower_commute_witness:
  "set_year 2019 (lower_columns frame_2019) = lower_columns (set_year 2019 frame_2019) \<and>
   lower_columns (set_year 2019 frame_2019) = table_2019"
proof -
  have h: "\<forall>c\<in>set (columns frame_2019). lower c = ''year'' \<longrightarrow> c = ''year''"
    by (simp add: frame_2019_def lower_respondent lower_amount)
  have e: "lower_columns (set_year 2019 frame_2019) = table_2019"
    by (simp add: set_year_def lower_columns_def frame_2019_def table_2019_def
          lower_respondent lower_amount lower_year)
  from tag_lower_commute [OF h, of 2019] e show ?thesis by simp
qed


subsection \<open>A field that is already called year\<close>

lemma written_columns:
  "columns (written_frame y df) =
     (if ''year'' \<in> set (columns df) then map lower (columns df)
      else map lower (columns df) @ [''year''])"
  by (simp add: written_frame_def lower_columns_def set_year_def lower_year)

lemma written_rows:
  "rows (written_frame y df) =
     (if ''year'' \<in> set (columns df)
      then map (\<lambda>r. map2 (\<lambda>c v. if c = ''year'' then IntV y else v) (columns df) r) (rows df)
      else map (\<lambda>r. r @ [IntV y]) (rows df))"
  by (simp add: written_frame_def lower_columns_def set_year_def)

lemma wf_frame_row: "wf_frame df \<Longrightarrow> k < length (rows df) \<Longrightarrow> length (rows df ! k) = length (columns df)"
  by (simp add: wf_frame_def list_all_length)

lemma written_cell_overwrite:
  assumes "wf_frame df" and "''year'' \<in> set (columns df)"
    and "k < length (rows df)" and "i < length (columns df)"
  shows "rows (written_frame y df) ! k ! i =
           (if columns df ! i = ''year'' then IntV y else rows df ! k ! i)"
  using assms wf_frame_row [OF assms(1,3)] by (simp add: written_rows)

lemma written_cell_append:
  assumes "wf_frame df" and "''year'' \<notin> set (columns df)" and "k < length (rows df)"
  shows "i < length (columns df) \<Longrightarrow> rows (written_frame y df) ! k ! i = rows df ! k ! i"
    and "rows (written_frame y df) ! k ! length (columns df) = IntV y"
  using assms wf_frame_row [OF assms(1,3)] by (simp_all add: written_rows nth_append)

text \<open>
  C9. In the frame the loader hands to the write step: a field named exactly \<open>year\<close> keeps
  its place and has, in every row, the year of the run instead of its own value, and no
  column is added. A field whose name is \<open>year\<close> in another letter case keeps its values
  and is renamed \<open>year\<close>, and the frame has a second column named \<open>year\<close> that holds the
  tag in every row.
\<close>

theorem year_field_collision:
  "(wf_frame df \<and> i < length (columns df) \<and> columns df ! i = ''year'' \<longrightarrow>
      columns (written_frame y df) = map lower (columns df) \<and>
      length (rows (written_frame y df)) = length (rows df) \<and>
      (\<forall>k < length (rows df). rows (written_frame y df) ! k ! i = IntV y)) \<and>
   (wf_frame df \<and> i < length (columns df) \<and> columns df ! i \<noteq> ''year'' \<and>
    lower (columns df ! i) = ''year'' \<longrightarrow>
      (\<exists>j < length (columns (written_frame y df)). j \<noteq> i \<and>
         columns (written_frame y df) ! i = ''year'' \<and>
         columns (written_frame y df) ! j = ''year'' \<and>
         (\<forall>k < length (rows df).
            rows (written_frame y df) ! k ! i = rows df ! k ! i \<and>
            rows (written_frame y df) ! k ! j = IntV y)))"
proof (intro conjI impI)
  assume a: "wf_frame df \<and> i < length (columns df) \<and> columns df ! i = ''year''"
  then have mem: "''year'' \<in> set (columns df)" by (metis nth_mem)
  then show "columns (written_frame y df) = map lower (columns df)"
    by (simp add: written_columns)
  show "length (rows (written_frame y df)) = length (rows df)"
    by (simp add: written_rows)
  from a mem show "\<forall>k < length (rows df). rows (written_frame y df) ! k ! i = IntV y"
    by (simp add: written_cell_overwrite)
next
  assume a: "wf_frame df \<and> i < length (columns df) \<and> columns df ! i \<noteq> ''year'' \<and>
    lower (columns df ! i) = ''year''"
  show "\<exists>j < length (columns (written_frame y df)). j \<noteq> i \<and>
         columns (written_frame y df) ! i = ''year'' \<and>
         columns (written_frame y df) ! j = ''year'' \<and>
         (\<forall>k < length (rows df).
            rows (written_frame y df) ! k ! i = rows df ! k ! i \<and>
            rows (written_frame y df) ! k ! j = IntV y)"
  proof (cases "''year'' \<in> set (columns df)")
    case True
    then obtain j where j: "j < length (columns df)" "columns df ! j = ''year''"
      by (auto simp: in_set_conv_nth)
    with a have "j \<noteq> i" by auto
    moreover from True j have "j < length (columns (written_frame y df))"
      by (simp add: written_columns)
    moreover from True a have "columns (written_frame y df) ! i = ''year''"
      by (simp add: written_columns)
    moreover from True j have "columns (written_frame y df) ! j = ''year''"
      by (simp add: written_columns lower_year)
    moreover from True a j have "\<forall>k < length (rows df).
            rows (written_frame y df) ! k ! i = rows df ! k ! i \<and>
            rows (written_frame y df) ! k ! j = IntV y"
      by (simp add: written_cell_overwrite)
    ultimately show ?thesis by blast
  next
    case False
    let ?j = "length (columns df)"
    from a have "?j \<noteq> i" by auto
    moreover from False have "?j < length (columns (written_frame y df))"
      by (simp add: written_columns)
    moreover from False a have "columns (written_frame y df) ! i = ''year''"
      by (simp add: written_columns nth_append)
    moreover from False have "columns (written_frame y df) ! ?j = ''year''"
      by (simp add: written_columns nth_append)
    moreover from False a have "\<forall>k < length (rows df).
            rows (written_frame y df) ! k ! i = rows df ! k ! i \<and>
            rows (written_frame y df) ! k ! ?j = IntV y"
      by (simp add: written_cell_append)
    ultimately show ?thesis by blast
  qed
qed


theorem year_field_collision_witness:
  "(columns (written_frame 2020 frame_lower_year) = map lower (columns frame_lower_year) \<and>
    length (rows (written_frame 2020 frame_lower_year)) = length (rows frame_lower_year) \<and>
    rows (written_frame 2020 frame_lower_year) ! 0 ! 1 = IntV 2020) \<and>
   (\<exists>j. j \<noteq> 1 \<and>
      columns (written_frame 2020 frame_upper_year) ! 1 = ''year'' \<and>
      columns (written_frame 2020 frame_upper_year) ! j = ''year'' \<and>
      rows (written_frame 2020 frame_upper_year) ! 0 ! 1 = IntV 1999 \<and>
      rows (written_frame 2020 frame_upper_year) ! 0 ! j = IntV 2020)"
proof -
  have p1: "wf_frame frame_lower_year \<and> 1 < length (columns frame_lower_year) \<and>
      columns frame_lower_year ! 1 = ''year''"
    by (simp add: wf_frame_def frame_lower_year_def)
  have p2: "wf_frame frame_upper_year \<and> 1 < length (columns frame_upper_year) \<and>
      columns frame_upper_year ! 1 \<noteq> ''year'' \<and> lower (columns frame_upper_year ! 1) = ''year''"
    by (simp add: wf_frame_def frame_upper_year_def lower_upper_year)
  have n1: "0 < length (rows frame_lower_year)"
    by (simp add: frame_lower_year_def)
  have n2: "0 < length (rows frame_upper_year)"
    by (simp add: frame_upper_year_def)
  have v: "rows frame_upper_year ! 0 ! 1 = IntV 1999"
    by (simp add: frame_upper_year_def)
  from year_field_collision [of frame_lower_year 1 2020] p1 n1
  have a: "columns (written_frame 2020 frame_lower_year) = map lower (columns frame_lower_year) \<and>
    length (rows (written_frame 2020 frame_lower_year)) = length (rows frame_lower_year) \<and>
    rows (written_frame 2020 frame_lower_year) ! 0 ! 1 = IntV 2020"
    by blast
  from year_field_collision [of frame_upper_year 1 2020] p2 n2 v
  have b: "\<exists>j. j \<noteq> 1 \<and>
      columns (written_frame 2020 frame_upper_year) ! 1 = ''year'' \<and>
      columns (written_frame 2020 frame_upper_year) ! j = ''year'' \<and>
      rows (written_frame 2020 frame_upper_year) ! 0 ! 1 = IntV 1999 \<and>
      rows (written_frame 2020 frame_upper_year) ! 0 ! j = IntV 2020"
    by metis
  from a b show ?thesis by blast
qed

subsection \<open>A store that cannot be opened\<close>

lemma import_zip_uncaught: "uncaught (import_zip fs st ys) = snd (snd (process_years fs st ys))"
  by (simp add: import_zip_def uncaught_def split: prod.splits option.splits)

lemma import_zip_printed:
  "printed (import_zip fs st ys) =
     (case snd (snd (process_years fs st ys)) of
        None \<Rightarrow> Starting # fst (snd (process_years fs st ys)) @ [Complete]
      | Some e \<Rightarrow> Starting # fst (snd (process_years fs st ys)))"
  by (simp add: import_zip_def printed_def split: prod.splits option.splits)

lemma process_year_uncaught:
  "snd (snd (process_year fs st y)) = (case fs y of Unlistable e \<Rightarrow> Some e | _ \<Rightarrow> None)"
  by (simp add: process_year_def Let_def split: directory.splits prod.splits)

lemma process_years_uncaught:
  "snd (snd (process_years fs st ys)) = Some e \<Longrightarrow> \<exists>y\<in>set ys. fs y = Unlistable e"
proof (induction ys arbitrary: st)
  case Nil
  then show ?case by simp
next
  case (Cons y ys)
  show ?case
  proof (cases "fs y")
    case (Unlistable e')
    with Cons.prems have "e' = e"
      using process_year_uncaught [of fs st y] by (auto split: prod.splits option.splits)
    with Unlistable show ?thesis by simp
  next
    case Missing
    with Cons.prems have "snd (snd (process_years fs (fst (process_year fs st y)) ys)) = Some e"
      using process_year_uncaught [of fs st y] by (auto split: prod.splits option.splits)
    from Cons.IH [OF this] show ?thesis by simp
  next
    case (Listing entries)
    with Cons.prems have "snd (snd (process_years fs (fst (process_year fs st y)) ys)) = Some e"
      using process_year_uncaught [of fs st y] by (auto split: prod.splits option.splits)
    from Cons.IH [OF this] show ?thesis by simp
  qed
qed

lemma process_years_no_uncaught:
  "\<forall>y\<in>set ys. \<forall>e. fs y \<noteq> Unlistable e \<Longrightarrow> snd (snd (process_years fs st ys)) = None"
  using process_years_uncaught [of fs st ys] by (cases "snd (snd (process_years fs st ys))") auto

lemma process_file_unavailable:
  "process_file y Unavailable f =
     (Unavailable,
      case snd f of
        Inl e \<Rightarrow> [Reading (fst f), Failed (fst f) y e]
      | Inr df \<Rightarrow>
          if empty_frame df then [Reading (fst f), EmptyFile (fst f)]
          else [Reading (fst f), Loading (table_name (fst f)), Failed (fst f) y StoreUnavailable])"
  by (simp add: process_file_unfold to_sql_def split: sum.splits)

lemma process_files_unavailable_reports:
  assumes "f \<in> set files" and "snd f = Inr df" and "\<not> empty_frame df"
  shows "Failed (fst f) y StoreUnavailable \<in> set (snd (process_files y Unavailable files))"
  using assms
proof (induction files)
  case Nil
  then show ?case by simp
next
  case (Cons g files)
  show ?case
  proof (cases "g = f")
    case True
    with Cons.prems show ?thesis
      by (simp add: process_file_unavailable split: prod.splits)
  next
    case False
    with Cons.prems have "f \<in> set files" by simp
    from Cons.IH [OF this Cons.prems(2,3)] show ?thesis
      by (auto simp: process_file_unavailable split: prod.splits)
  qed
qed


lemma process_files_unavailable: "fst (process_files y Unavailable files) = Unavailable"
  by (simp add: process_files_available)

lemma process_year_printed_files:
  assumes "fs y = Listing entries" and "filter (\<lambda>f. is_dbf (fst f)) entries \<noteq> []"
  shows "set (snd (process_files y st (filter (\<lambda>f. is_dbf (fst f)) entries)))
           \<subseteq> set (fst (snd (process_year fs st y)))"
  using assms by (auto simp: process_year_def Let_def split: prod.splits)

lemma process_years_printed_year:
  assumes "y \<in> set ys" and "\<forall>y\<in>set ys. \<forall>e. fs y \<noteq> Unlistable e"
  shows "set (fst (snd (process_year fs Unavailable y)))
           \<subseteq> set (fst (snd (process_years fs Unavailable ys)))"
  using assms
proof (induction ys)
  case Nil
  then show ?case by simp
next
  case (Cons z ys)
  have st: "fst (process_year fs Unavailable z) = Unavailable"
    by (simp add: process_year_available)
  from Cons.prems(2) have un: "snd (snd (process_year fs Unavailable z)) = None"
    by (auto simp: process_year_uncaught split: directory.splits)
  from st un have step: "fst (snd (process_years fs Unavailable (z # ys))) =
      fst (snd (process_year fs Unavailable z)) @ fst (snd (process_years fs Unavailable ys))"
    by (cases "process_year fs Unavailable z")
       (auto split: prod.splits option.splits)
  show ?case
  proof (cases "y = z")
    case True
    with step show ?thesis by auto
  next
    case False
    with Cons.prems have "y \<in> set ys" "\<forall>y\<in>set ys. \<forall>e. fs y \<noteq> Unlistable e" by auto
    from Cons.IH [OF this] step show ?thesis by auto
  qed
qed

text \<open>
  C3, as stated, fails: with a store that cannot be opened, the run over 2019 is not
  aborted. The write of the one file with records raises inside the \<open>try\<close>, is printed as
  that file's failure, and the run goes on to its summary.
\<close>

theorem store_failure_counterexample:
  "import_zip example_fs Unavailable [2019] =
     (Unavailable,
      [Starting, ProcessingYear 2019, Found 3,
       Reading ''F1_1.DBF'', Loading ''f1_1'', Failed ''F1_1.DBF'' 2019 StoreUnavailable,
       Reading ''F1_2.DBF'', Failed ''F1_2.DBF'' 2019 (ReadFailure ''bad header''),
       Reading ''f1_3.dbf'', EmptyFile ''f1_3.dbf'',
       FinishedYear 2019, Complete],
      None)"
  by code_simp

text \<open>
  C3, amended. With a store that cannot be opened the store stays as it is, and a run in
  which every existing year directory can be listed ends without an uncaught exception,
  prints its summary, and reports each file that reaches the write step as a failure of
  that file in that year. Whatever the store, the only exception that ends a run is one
  raised while listing a year's directory.
\<close>

theorem store_failure_reported_per_file:
  "final_store (import_zip fs Unavailable years) = Unavailable \<and>
   (uncaught (import_zip fs st years) = Some e \<longrightarrow> (\<exists>y\<in>set years. fs y = Unlistable e)) \<and>
   ((\<forall>y\<in>set years. \<forall>e. fs y \<noteq> Unlistable e) \<longrightarrow>
      uncaught (import_zip fs Unavailable years) = None \<and>
      last (printed (import_zip fs Unavailable years)) = Complete \<and>
      (\<forall>y\<in>set years. \<forall>entries f df.
         fs y = Listing entries \<and> f \<in> set entries \<and> is_dbf (fst f) \<and> snd f = Inr df \<and>
         \<not> empty_frame df \<longrightarrow>
           Failed (fst f) y StoreUnavailable \<in> set (printed (import_zip fs Unavailable years))))"
proof (intro conjI impI)
  show "final_store (import_zip fs Unavailable years) = Unavailable"
    by (simp add: import_zip_store process_years_available)
next
  assume "uncaught (import_zip fs st years) = Some e"
  then show "\<exists>y\<in>set years. fs y = Unlistable e"
    by (simp add: import_zip_uncaught process_years_uncaught)
next
  assume ok: "\<forall>y\<in>set years. \<forall>e. fs y \<noteq> Unlistable e"
  then have none: "snd (snd (process_years fs Unavailable years)) = None"
    by (rule process_years_no_uncaught)
  then show "uncaught (import_zip fs Unavailable years) = None"
    by (simp add: import_zip_uncaught)
  from none show "last (printed (import_zip fs Unavailable years)) = Complete"
    by (simp add: import_zip_printed)
  show "\<forall>y\<in>set years. \<forall>entries f df.
         fs y = Listing entries \<and> f \<in> set entries \<and> is_dbf (fst f) \<and> snd f = Inr df \<and>
         \<not> empty_frame df \<longrightarrow>
           Failed (fst f) y StoreUnavailable \<in> set (printed (import_zip fs Unavailable years))"
  proof (intro ballI allI impI)
    fix y entries f df
    assume y: "y \<in> set years"
      and a: "fs y = Listing entries \<and> f \<in> set entries \<and> is_dbf (fst f) \<and> snd f = Inr df \<and>
         \<not> empty_frame df"
    let ?dbf = "filter (\<lambda>f. is_dbf (fst f)) entries"
    from a have mem: "f \<in> set ?dbf" by simp
    then have ne: "?dbf \<noteq> []" by (metis empty_iff list.set(1))
    from mem a have "Failed (fst f) y StoreUnavailable \<in> set (snd (process_files y Unavailable ?dbf))"
      by (intro process_files_unavailable_reports) auto
    with process_year_printed_files [of fs y entries Unavailable] a ne
    have "Failed (fst f) y StoreUnavailable \<in> set (fst (snd (process_year fs Unavailable y)))"
      by auto
    with process_years_printed_year [OF y ok]
    have "Failed (fst f) y StoreUnavailable \<in> set (fst (snd (process_years fs Unavailable years)))"
      by auto
    with none show "Failed (fst f) y StoreUnavailable \<in> set (printed (import_zip fs Unavailable years))"
      by (simp add: import_zip_printed)
  qed
qed


theorem store_failure_reported_per_file_witness:
  "uncaught (import_zip example_fs Unavailable [2019]) = None \<and>
   last (printed (import_zip example_fs Unavailable [2019])) = Complete \<and>
   Failed ''F1_1.DBF'' 2019 StoreUnavailable \<in> set (printed (import_zip example_fs Unavailable [2019])) \<and>
   uncaught (import_zip unlistable_fs (Db []) [2018, 2019, 2020]) =
     Some (ListFailure ''permission denied'') \<and>
   unlistable_fs 2019 = Unlistable (ListFailure ''permission denied'')"
proof -
  have ok: "\<forall>y\<in>set [2019]. \<forall>e. example_fs y \<noteq> Unlistable e"
    by (simp add: example_fs_def)
  have f: "example_fs 2019 =
      Listing [(''F1_1.DBF'', Inr frame_2019),
               (''F1_2.DBF'', Inl (ReadFailure ''bad header'')),
               (''f1_3.dbf'', Inr frame_no_records),
               (''readme.txt'', Inl (ReadFailure ''not a table''))]"
    by (simp add: example_fs_def)
  have d: "is_dbf ''F1_1.DBF''"
    by code_simp
  have ne: "\<not> empty_frame frame_2019"
    by (simp add: empty_frame_def frame_2019_def)
  have u: "uncaught (import_zip unlistable_fs (Db []) [2018, 2019, 2020]) =
      Some (ListFailure ''permission denied'')"
    by code_simp
  have l: "unlistable_fs 2019 = Unlistable (ListFailure ''permission denied'')"
    by (simp add: unlistable_fs_def)
  from store_failure_reported_per_file [of example_fs "[2019]" "Db []" "ListFailure ''x''"] ok
  have a: "uncaught (import_zip example_fs Unavailable [2019]) = None"
    and b: "last (printed (import_zip example_fs Unavailable [2019])) = Complete"
    and c: "\<forall>y\<in>set [2019]. \<forall>entries f df.
         example_fs y = Listing entries \<and> f \<in> set entries \<and> is_dbf (fst f) \<and> snd f = Inr df \<and>
         \<not> empty_frame df \<longrightarrow>
           Failed (fst f) y StoreUnavailable \<in> set (printed (import_zip example_fs Unavailable [2019]))"
    by blast+
  from c f d ne
  have "Failed ''F1_1.DBF'' 2019 StoreUnavailable
          \<in> set (printed (import_zip example_fs Unavailable [2019]))"
    by auto
  with a b u l show ?thesis by simp
qed

subsection \<open>Running the loader twice\<close>

text \<open>
  Two runs over the same files are compared step by step. The first starts from a store
  \<open>a\<close>, the second from a store \<open>b\<close> that already has every table the first run ends with,
  with the same columns. Then each file is accepted by the second run exactly when it is by
  the first, and adds the same number of rows to the same table.
\<close>

lemma same_schema_refl: "same_schema a a"
  by (simp add: same_schema_def)

lemma to_sql_total: "\<not> accepts st name df \<or> (\<exists>st'. to_sql st name df = Inr st')"
  using to_sql_Inl [of st name df] by (cases "to_sql st name df") auto

lemma row_count_to_sql:
  assumes "to_sql st name df = Inr st'"
  shows "row_count st' n = row_count st n + (if n = name then length (rows df) else 0)"
  using to_sql_Inr(3) [OF assms, of n]
  by (simp add: row_count_def appended_rows_length split: option.splits)

lemma accepts_same_schema:
  assumes "to_sql a name df = Inr a'" and "same_schema a' b" and "b \<noteq> Unavailable"
  shows "accepts b name df"
proof -
  from to_sql_Inr(1) [OF assms(1)] have acc: "accepts a name df" .
  from to_sql_Inr(3) [OF assms(1), of name]
  have "lookup_table a' name = Some (appended (lookup_table a name) df)" by simp
  with assms(2) obtain tb where tb: "lookup_table b name = Some tb"
      "columns tb = columns (appended (lookup_table a name) df)"
    unfolding same_schema_def by blast
  from acc have "set (columns df) \<subseteq> set (columns (appended (lookup_table a name) df))"
    by (auto simp: accepts_def appended_columns split: option.splits)
  with tb acc assms(3) show ?thesis
    by (simp add: accepts_def)
qed

lemma rejects_same_schema:
  assumes "\<not> accepts a name df" and "a \<noteq> Unavailable" and "same_schema a b"
  shows "\<not> accepts b name df"
proof (cases "distinct (columns df)")
  case False
  then show ?thesis by (simp add: accepts_def)
next
  case True
  with assms(1,2) obtain ta where ta: "lookup_table a name = Some ta"
      "\<not> set (columns df) \<subseteq> set (columns ta)"
    by (auto simp: accepts_def split: option.splits)
  with assms(3) obtain tb where "lookup_table b name = Some tb" "columns tb = columns ta"
    unfolding same_schema_def by blast
  with ta show ?thesis by (simp add: accepts_def)
qed

lemma process_file_two_runs:
  assumes "a \<noteq> Unavailable" and "b \<noteq> Unavailable"
    and "same_schema (fst (process_file y a f)) b"
  shows "row_count (fst (process_file y b f)) n + row_count a n =
         row_count b n + row_count (fst (process_file y a f)) n"
proof (cases "snd f")
  case (Inl e)
  then show ?thesis by (simp add: process_file_unfold)
next
  case (Inr df)
  show ?thesis
  proof (cases "empty_frame df")
    case True
    with Inr show ?thesis by (simp add: process_file_unfold)
  next
    case False
    let ?t = "table_name (fst f)" and ?w = "written_frame y df"
    show ?thesis
    proof (cases "accepts a ?t ?w")
      case True
      with to_sql_total [of a ?t ?w] obtain a' where a': "to_sql a ?t ?w = Inr a'" by blast
      with Inr False have pa: "fst (process_file y a f) = a'"
        by (simp add: process_file_unfold)
      with assms(3) have "same_schema a' b" by simp
      from accepts_same_schema [OF a' this assms(2)] to_sql_total [of b ?t ?w]
      obtain b' where b': "to_sql b ?t ?w = Inr b'" by blast
      with Inr False have pb: "fst (process_file y b f) = b'"
        by (simp add: process_file_unfold)
      from row_count_to_sql [OF a', of n] row_count_to_sql [OF b', of n] pa pb
      show ?thesis by simp
    next
      case na: False
      with to_sql_Inl [of a ?t ?w] obtain e where "to_sql a ?t ?w = Inl e" by blast
      with Inr False have pa: "fst (process_file y a f) = a"
        by (simp add: process_file_unfold)
      with assms(3) have "same_schema a b" by simp
      from rejects_same_schema [OF na assms(1) this] to_sql_Inl [of b ?t ?w]
      obtain e' where "to_sql b ?t ?w = Inl e'" by blast
      with Inr False have pb: "fst (process_file y b f) = b"
        by (simp add: process_file_unfold)
      from pa pb show ?thesis by simp
    qed
  qed
qed

lemma process_files_two_runs:
  assumes "a \<noteq> Unavailable" and "b \<noteq> Unavailable"
    and "same_schema (fst (process_files y a files)) b"
  shows "row_count (fst (process_files y b files)) n + row_count a n =
         row_count b n + row_count (fst (process_files y a files)) n"
  using assms
proof (induction files arbitrary: a b)
  case Nil
  then show ?case by simp
next
  case (Cons f files)
  let ?a1 = "fst (process_file y a f)" and ?b1 = "fst (process_file y b f)"
  have ea: "fst (process_files y a (f # files)) = fst (process_files y ?a1 files)"
    by (simp split: prod.splits)
  have eb: "fst (process_files y b (f # files)) = fst (process_files y ?b1 files)"
    by (simp split: prod.splits)
  from Cons.prems(3) ea have end_b: "same_schema (fst (process_files y ?a1 files)) b" by simp
  have "same_schema ?a1 (fst (process_files y ?a1 files))"
    by (rule keeps_same_schema) (rule process_files_keeps)
  from same_schema_trans [OF this end_b] have s1: "same_schema ?a1 b" .
  have "same_schema b ?b1"
    by (rule keeps_same_schema) (rule process_file_keeps)
  from same_schema_trans [OF end_b this]
  have s2: "same_schema (fst (process_files y ?a1 files)) ?b1" .
  from Cons.prems(1) have a1: "?a1 \<noteq> Unavailable" by (simp add: process_file_available)
  from Cons.prems(2) have b1: "?b1 \<noteq> Unavailable" by (simp add: process_file_available)
  from process_file_two_runs [OF Cons.prems(1,2) s1, of n] Cons.IH [OF a1 b1 s2] ea eb
  show ?case by simp
qed

lemma process_year_two_runs:
  assumes "a \<noteq> Unavailable" and "b \<noteq> Unavailable"
    and "same_schema (fst (process_year fs a y)) b"
  shows "row_count (fst (process_year fs b y)) n + row_count a n =
         row_count b n + row_count (fst (process_year fs a y)) n"
proof (cases "fs y")
  case (Listing entries)
  with assms(3) have "same_schema (fst (process_files y a (filter (\<lambda>f. is_dbf (fst f)) entries))) b"
    by (simp add: process_year_store)
  from process_files_two_runs [OF assms(1,2) this, of n] Listing show ?thesis
    by (simp add: process_year_store)
next
  case Missing
  then show ?thesis by (simp add: process_year_store)
next
  case (Unlistable e)
  then show ?thesis by (simp add: process_year_store)
qed

lemma process_years_store_Cons:
  "fst (process_years fs st (y # ys)) =
     (case snd (snd (process_year fs st y)) of
        Some e \<Rightarrow> fst (process_year fs st y)
      | None \<Rightarrow> fst (process_years fs (fst (process_year fs st y)) ys))"
  by (simp split: prod.splits option.splits)

lemma process_years_two_runs:
  assumes "a \<noteq> Unavailable" and "b \<noteq> Unavailable"
    and "same_schema (fst (process_years fs a ys)) b"
  shows "row_count (fst (process_years fs b ys)) n + row_count a n =
         row_count b n + row_count (fst (process_years fs a ys)) n"
  using assms
proof (induction ys arbitrary: a b)
  case Nil
  then show ?case by simp
next
  case (Cons y ys)
  let ?a1 = "fst (process_year fs a y)" and ?b1 = "fst (process_year fs b y)"
  have un: "snd (snd (process_year fs a y)) = snd (snd (process_year fs b y))"
    by (simp add: process_year_uncaught)
  show ?case
  proof (cases "snd (snd (process_year fs b y))")
    case (Some e)
    with un have ea: "fst (process_years fs a (y # ys)) = ?a1"
      and eb: "fst (process_years fs b (y # ys)) = ?b1"
      by (simp_all only: process_years_store_Cons option.case)
    from Cons.prems(3) ea have "same_schema ?a1 b" by simp
    from process_year_two_runs [OF Cons.prems(1,2) this, of n] ea eb show ?thesis by simp
  next
    case None
    with un have ea: "fst (process_years fs a (y # ys)) = fst (process_years fs ?a1 ys)"
      and eb: "fst (process_years fs b (y # ys)) = fst (process_years fs ?b1 ys)"
      by (simp_all only: process_years_store_Cons option.case)
    from Cons.prems(3) ea have end_b: "same_schema (fst (process_years fs ?a1 ys)) b" by simp
    have "same_schema ?a1 (fst (process_years fs ?a1 ys))"
      by (rule keeps_same_schema) (rule process_years_keeps)
    from same_schema_trans [OF this end_b] have s1: "same_schema ?a1 b" .
    have "same_schema b ?b1"
      by (rule keeps_same_schema) (rule process_year_keeps)
    from same_schema_trans [OF end_b this]
    have s2: "same_schema (fst (process_years fs ?a1 ys)) ?b1" .
    from Cons.prems(1) have a1: "?a1 \<noteq> Unavailable" by (simp add: process_year_available)
    from Cons.prems(2) have b1: "?b1 \<noteq> Unavailable" by (simp add: process_year_available)
    from process_year_two_runs [OF Cons.prems(1,2) s1, of n] Cons.IH [OF a1 b1 s2] ea eb
    show ?thesis by simp
  qed
qed

text \<open>
  C4. A run into an empty database followed by a second run over the same years and the
  same files leaves every table with twice the rows it had after the first run (a table the
  runs never wrote has none, before and after).
\<close>

theorem rerun_doubles_rows:
  "row_count (final_store (import_zip fs (final_store (import_zip fs (Db []) years)) years)) n =
     2 * row_count (final_store (import_zip fs (Db []) years)) n"
proof -
  let ?once = "fst (process_years fs (Db []) years)"
  have a: "Db [] \<noteq> Unavailable" by simp
  have b: "?once \<noteq> Unavailable" by (simp add: process_years_available)
  have "row_count (fst (process_years fs ?once years)) n + row_count (Db []) n =
        row_count ?once n + row_count ?once n"
    by (rule process_years_two_runs [OF a b same_schema_refl])
  then show ?thesis
    by (simp add: import_zip_store row_count_def lookup_table_def)
qed

lemma rerun_example:
  "row_count (final_store (import_zip example_fs (Db []) [2018, 2019, 2020])) ''f1_1'' = 5 \<and>
   row_count (final_store (import_zip example_fs
       (final_store (import_zip example_fs (Db []) [2018, 2019, 2020])) [2018, 2019, 2020]))
     ''f1_1'' = 10"
  by code_simp

subsection \<open>What an ingested record looks like\<close>

lemma written_columns_lower: "c \<in> set (columns (written_frame y df)) \<Longrightarrow> lower c = c"
  by (auto simp: written_columns lower_idem lower_year split: if_splits)

lemma written_rows_length: "length (rows (written_frame y df)) = length (rows df)"
  by (simp add: written_rows)

lemma written_row_width:
  assumes "wf_frame df" and "r \<in> set (rows (written_frame y df))"
  shows "length r = length (columns (written_frame y df))"
  using assms
  by (auto simp: written_rows written_columns wf_frame_def list_all_iff split: if_splits)

lemma written_year_position:
  assumes "wf_frame df" and "r \<in> set (rows (written_frame y df))"
  shows "\<exists>i < length r. columns (written_frame y df) ! i = ''year'' \<and> r ! i = IntV y"
proof -
  from assms(2) obtain k where k: "k < length (rows df)" "r = rows (written_frame y df) ! k"
    by (metis in_set_conv_nth written_rows_length)
  from written_row_width [OF assms] have w: "length r = length (columns (written_frame y df))" .
  show ?thesis
  proof (cases "''year'' \<in> set (columns df)")
    case True
    then obtain i where i: "i < length (columns df)" "columns df ! i = ''year''"
      by (auto simp: in_set_conv_nth)
    with True w have "i < length r" by (simp add: written_columns)
    moreover from True i have "columns (written_frame y df) ! i = ''year''"
      by (simp add: written_columns lower_year)
    moreover from written_cell_overwrite [OF assms(1) True k(1) i(1), of y] i(2) k(2)
    have "r ! i = IntV y" by simp
    ultimately show ?thesis by blast
  next
    case False
    let ?i = "length (columns df)"
    from False w have "?i < length r" by (simp add: written_columns)
    moreover from False have "columns (written_frame y df) ! ?i = ''year''"
      by (simp add: written_columns nth_append)
    moreover from written_cell_append(2) [OF assms(1) False k(1), of y] k(2)
    have "r ! ?i = IntV y" by simp
    ultimately show ?thesis by blast
  qed
qed

lemma written_year_value:
  assumes "wf_frame df" and "distinct (columns (written_frame y df))"
    and "r \<in> set (rows (written_frame y df))"
  shows "map_of (zip (columns (written_frame y df)) r) ''year'' = Some (IntV y)"
proof -
  from written_year_position [OF assms(1,3)] obtain i where
    i: "i < length r" "columns (written_frame y df) ! i = ''year''" "r ! i = IntV y"
    by blast
  from written_row_width [OF assms(1,3)]
  have "length (columns (written_frame y df)) = length r" by simp
  from map_of_zip_nth [OF this assms(2) i(1)] i(2,3) show ?thesis by simp
qed

lemma aligned_year_value:
  assumes "wf_frame df" and "distinct (columns (written_frame y df))"
    and "r \<in> set (rows (written_frame y df))" and "''year'' \<in> set tcols"
  shows "map_of (zip tcols (align_row tcols (columns (written_frame y df)) r)) ''year'' =
           Some (IntV y)"
  using assms(4) written_year_value [OF assms(1-3)]
  by (simp add: align_row_def map_of_zip_map)

lemma year_in_written_columns: "''year'' \<in> set (columns (written_frame y df))"
  by (simp add: written_columns lower_year image_iff) (metis lower_year)

text \<open>
  The tables of a store have lowercase column names if they had before the loader ran.
\<close>

lemma tables_unchanged_or_written:
  "lookup_table (fst (process_file y st f)) n = lookup_table st n \<or>
   (\<exists>df. snd f = Inr df \<and> n = table_name (fst f) \<and>
         lookup_table (fst (process_file y st f)) n =
           Some (appended (lookup_table st n) (written_frame y df)))"
  by (auto simp: process_file_unfold to_sql_Inr(3) split: sum.splits)

lemma lowercase_store_empty: "lowercase_store (Db [])"
  by (simp add: lowercase_store_def lookup_table_def)

lemma process_file_lowercase:
  assumes "lowercase_store st"
  shows "lowercase_store (fst (process_file y st f))"
proof -
  have "\<forall>c\<in>set (columns t'). lower c = c"
    if "lookup_table (fst (process_file y st f)) n = Some t'" for n t'
  proof -
    from tables_unchanged_or_written [of y st f n] that
    consider "lookup_table st n = Some t'"
      | df where "t' = appended (lookup_table st n) (written_frame y df)"
      by auto
    then show ?thesis
    proof cases
      case 1
      with assms show ?thesis by (simp add: lowercase_store_def)
    next
      case 2
      with assms show ?thesis
        by (auto simp: lowercase_store_def appended_columns written_columns_lower
              split: option.splits)
    qed
  qed
  then show ?thesis by (simp add: lowercase_store_def)
qed

lemma process_files_lowercase:
  "lowercase_store st \<Longrightarrow> lowercase_store (fst (process_files y st files))"
proof (induction files arbitrary: st)
  case Nil
  then show ?case by simp
next
  case (Cons f files)
  have "fst (process_files y st (f # files)) =
        fst (process_files y (fst (process_file y st f)) files)"
    by (simp split: prod.splits)
  with Cons.IH [OF process_file_lowercase [OF Cons.prems, of y f]] show ?case
    by (simp only:)
qed

lemma process_years_lowercase:
  "lowercase_store st \<Longrightarrow> lowercase_store (fst (process_years fs st ys))"
proof (induction ys arbitrary: st)
  case Nil
  then show ?case by simp
next
  case (Cons y ys)
  from Cons.prems have y: "lowercase_store (fst (process_year fs st y))"
    by (simp add: process_year_store process_files_lowercase split: directory.splits)
  from Cons.IH [OF y] y show ?case
    by (cases "snd (snd (process_year fs st y))")
       (simp_all only: process_years_store_Cons option.case)
qed

lemma import_zip_lowercase:
  "lowercase_store st \<Longrightarrow> lowercase_store (final_store (import_zip fs st years))"
  by (simp add: import_zip_store process_years_lowercase)

lemma lower_lowercase_names:
  "lower ''respondent'' = ''respondent''" "lower ''amount'' = ''amount''"
  by code_simp+

lemma lowercase_store_2019: "lowercase_store store_2019"
  by (auto simp: lowercase_store_def lookup_table_def store_2019_def table_2019_def
        lower_lowercase_names lower_year split: if_splits)

text \<open>
  C2. When the loader writes a file with records into its table, starting from a store
  whose tables have lowercase column names, the table ends with as many new rows as the
  file has records; each of these rows has, under the column \<open>year\<close>, the year the file
  was read for; and every column name of the table is lowercase.
\<close>

theorem ingested_records_tagged:
  assumes "snd f = Inr df" and "\<not> empty_frame df" and "wf_frame df"
    and "lowercase_store st"
    and "try_body y st f = (out, Inr st')"
  shows "\<exists>t'. lookup_table st' (table_name (fst f)) = Some t' \<and>
           length (rows t') = row_count st (table_name (fst f)) + length (rows df) \<and>
           (\<forall>r\<in>set (drop (row_count st (table_name (fst f))) (rows t')).
              length r = length (columns t') \<and>
              map_of (zip (columns t') r) ''year'' = Some (IntV y)) \<and>
           (\<forall>c\<in>set (columns t'). lower c = c)"
proof -
  let ?n = "table_name (fst f)" and ?w = "written_frame y df"
  from assms(1,2,5) have w: "to_sql st ?n ?w = Inr st'"
    by (simp add: try_body_def)
  from to_sql_Inr(1) [OF w] have acc: "accepts st ?n ?w" .
  then have d: "distinct (columns ?w)" by (simp add: accepts_def)
  from to_sql_Inr(3) [OF w, of ?n]
  have t': "lookup_table st' ?n = Some (appended (lookup_table st ?n) ?w)" by simp
  show ?thesis
  proof (cases "lookup_table st ?n")
    case None
    then have rc: "row_count st ?n = 0" by (simp add: row_count_def)
    have ap: "columns (appended None ?w) = columns ?w" "rows (appended None ?w) = rows ?w"
      by (simp_all add: appended_def)
    from None t' rc ap d assms(3) show ?thesis
      by (auto simp: written_rows_length written_row_width written_year_value
            written_columns_lower)
  next
    case (Some t)
    then have rc: "row_count st ?n = length (rows t)" by (simp add: row_count_def)
    have ap: "columns (appended (Some t) ?w) = columns t"
      "rows (appended (Some t) ?w) = rows t @ map (align_row (columns t) (columns ?w)) (rows ?w)"
      by (simp_all add: appended_def)
    from acc Some have sub: "set (columns ?w) \<subseteq> set (columns t)"
      by (simp add: accepts_def)
    with year_in_written_columns [of y df] have yr: "''year'' \<in> set (columns t)" by blast
    from assms(4) Some have low: "\<forall>c\<in>set (columns t). lower c = c"
      by (simp add: lowercase_store_def)
    have new: "\<forall>r\<in>set (map (align_row (columns t) (columns ?w)) (rows ?w)).
        length r = length (columns t) \<and> map_of (zip (columns t) r) ''year'' = Some (IntV y)"
      using aligned_year_value [OF assms(3) d _ yr] by (auto simp: align_row_def)
    from Some t' rc ap low new show ?thesis
      by (simp add: written_rows_length)
  qed
qed


theorem ingested_records_tagged_witness:
  "try_body 2020 store_2019 (''f1_1.dbf'', Inr frame_2020) =
     ([Reading ''f1_1.dbf'', Loading ''f1_1''],
      Inr (Db [(''f1_1'',
                \<lparr>columns = [''respondent'', ''amount'', ''year''],
                 rows = [[IntV 1, IntV 10, IntV 2019], [IntV 2, IntV 20, IntV 2019],
                         [IntV 3, IntV 30, IntV 2019],
                         [IntV 1, IntV 11, IntV 2020], [IntV 2, IntV 21, IntV 2020]]\<rparr>)])) \<and>
   row_count store_2019 ''f1_1'' = 3 \<and>
   (\<exists>t'. lookup_table
           (Db [(''f1_1'',
                \<lparr>columns = [''respondent'', ''amount'', ''year''],
                 rows = [[IntV 1, IntV 10, IntV 2019], [IntV 2, IntV 20, IntV 2019],
                         [IntV 3, IntV 30, IntV 2019],
                         [IntV 1, IntV 11, IntV 2020], [IntV 2, IntV 21, IntV 2020]]\<rparr>)])
           ''f1_1'' = Some t' \<and>
         length (rows t') = 5 \<and>
         map_of (zip (columns t') (rows t' ! 3)) ''year'' = Some (IntV 2020) \<and>
         map_of (zip (columns t') (rows t' ! 4)) ''year'' = Some (IntV 2020))"
proof -
  let ?st' = "Db [(''f1_1'',
                \<lparr>columns = [''respondent'', ''amount'', ''year''],
                 rows = [[IntV 1, IntV 10, IntV 2019], [IntV 2, IntV 20, IntV 2019],
                         [IntV 3, IntV 30, IntV 2019],
                         [IntV 1, IntV 11, IntV 2020], [IntV 2, IntV 21, IntV 2020]]\<rparr>)]"
  have h1: "snd (''f1_1.dbf'', (Inr frame_2020 :: error + dataframe)) = Inr frame_2020" by simp
  have h2: "\<not> empty_frame frame_2020" by (simp add: empty_frame_def frame_2020_def)
  have h3: "wf_frame frame_2020" by (simp add: wf_frame_def frame_2020_def)
  have h5: "try_body 2020 store_2019 (''f1_1.dbf'', Inr frame_2020) =
      ([Reading ''f1_1.dbf'', Loading ''f1_1''], Inr ?st')"
    by code_simp
  have tn: "table_name ''f1_1.dbf'' = ''f1_1''" by code_simp
  have rc: "row_count store_2019 ''f1_1'' = 3"
    by (simp add: row_count_def lookup_table_def store_2019_def table_2019_def)
  have len: "length (rows frame_2020) = 2" by (simp add: frame_2020_def)
  from ingested_records_tagged [OF h1 h2 h3 lowercase_store_2019 h5] tn rc len
  obtain t' where t': "lookup_table ?st' ''f1_1'' = Some t'" "length (rows t') = 5"
    and new: "\<forall>r\<in>set (drop 3 (rows t')). map_of (zip (columns t') r) ''year'' = Some (IntV 2020)"
    by auto
  from t'(2) have e: "drop 3 (rows t') ! 0 = rows t' ! 3" "drop 3 (rows t') ! 1 = rows t' ! 4"
    by simp_all
  from t'(2) have "drop 3 (rows t') ! 0 \<in> set (drop 3 (rows t'))"
    "drop 3 (rows t') ! 1 \<in> set (drop 3 (rows t'))"
    by (simp_all only: nth_mem length_drop)
  with e have "rows t' ! 3 \<in> set (drop 3 (rows t'))" "rows t' ! 4 \<in> set (drop 3 (rows t'))"
    by simp_all
  with new have "map_of (zip (columns t') (rows t' ! 3)) ''year'' = Some (IntV 2020)"
    "map_of (zip (columns t') (rows t' ! 4)) ''year'' = Some (IntV 2020)"
    by blast+
  with t' h5 rc show ?thesis by blast
qed


end
